theory Spec2Isabelle
  imports Main "HOL-Library.Sublist"
begin

section \<open>SVF report transformer (SRT.py): data model\<close>

text \<open>
  Python strings are sequences of code points. A \<^typ>\<open>char\<close> stands for a code point
  below 256, so a \<^typ>\<open>string\<close> is a Python \<open>str\<close> over Latin-1 and \<open>length\<close> is
  Python's \<open>len\<close>. Integers of the report (line, column, copy range) are Python's
  unbounded \<open>int\<close>.
\<close>

datatype error = IndexError | OSError | AttributeError

text \<open>\<open>xs[i]\<close>: a negative index counts from the end, out of range raises.\<close>

definition py_index :: "'a list \<Rightarrow> int \<Rightarrow> error + 'a" where
  "py_index xs i =
     (if 0 \<le> i \<and> i < int (length xs) then Inr (xs ! nat i)
      else if i < 0 \<and> - int (length xs) \<le> i then Inr (xs ! nat (int (length xs) + i))
      else Inl IndexError)"

text \<open>\<open>xs[a:b]\<close>: each bound, when negative, has the length added, and is then clamped
  to \<open>0 .. len(xs)\<close>.\<close>

definition slice_bound :: "int \<Rightarrow> int \<Rightarrow> nat" where
  "slice_bound n i = (let j = (if i < 0 then i + n else i) in nat (min n (max 0 j)))"

definition py_slice :: "'a list \<Rightarrow> int \<Rightarrow> int \<Rightarrow> 'a list" where
  "py_slice xs a b =
     (let n = int (length xs)
      in drop (slice_bound n a) (take (slice_bound n b) xs))"

text \<open>\<open>xs[:b]\<close>\<close>

definition py_slice_to :: "'a list \<Rightarrow> int \<Rightarrow> 'a list" where
  "py_slice_to xs b = take (slice_bound (int (length xs)) b) xs"

subsection \<open>Character classes of \<open>str\<close>\<close>

definition code_point :: "char \<Rightarrow> nat" where
  "code_point c = of_char c"

definition in_range :: "nat \<Rightarrow> nat \<Rightarrow> char \<Rightarrow> bool" where
  "in_range lo hi c = (lo \<le> code_point c \<and> code_point c \<le> hi)"

text \<open>\<open>char.isalpha()\<close>\<close>

definition isalpha :: "char \<Rightarrow> bool" where
  "isalpha c =
     (in_range 0x41 0x5A c \<or> in_range 0x61 0x7A c \<or> code_point c = 0xAA
      \<or> code_point c = 0xB5 \<or> code_point c = 0xBA \<or> in_range 0xC0 0xD6 c
      \<or> in_range 0xD8 0xF6 c \<or> in_range 0xF8 0xFF c)"

text \<open>\<open>letter.isupper()\<close> for a single character\<close>

definition isupper :: "char \<Rightarrow> bool" where
  "isupper c = (in_range 0x41 0x5A c \<or> in_range 0xC0 0xD6 c \<or> in_range 0xD8 0xDE c)"

text \<open>the characters removed by \<open>lstrip()\<close> and \<open>rstrip()\<close> without argument\<close>

definition isspace :: "char \<Rightarrow> bool" where
  "isspace c =
     (in_range 0x09 0x0D c \<or> in_range 0x1C 0x20 c \<or> code_point c = 0x85
      \<or> code_point c = 0xA0)"

definition lstrip :: "string \<Rightarrow> string" where
  "lstrip s = dropWhile isspace s"

definition rstrip :: "string \<Rightarrow> string" where
  "rstrip s = rev (dropWhile isspace (rev s))"

text \<open>\<open>sub in s\<close> on strings\<close>

fun str_in :: "string \<Rightarrow> string \<Rightarrow> bool" where
  "str_in sub [] = (sub = [])"
| "str_in sub (c # cs) = (prefix sub (c # cs) \<or> str_in sub cs)"

subsection \<open>Tags and messages\<close>

definition PL :: string where "PL = ''Partial Leak''"
definition true :: string where "true = ''True''"
definition false :: string where "false = ''False''"

definition AC :: string where "AC = ''''"
definition DFF :: string where "DFF = ''Duplicated Files Found''"
definition NSF :: string where "NSF = ''No Such File''"
definition DFFIC :: string where "DFFIC = ''Duplicated Files Found In Conditions Analysis''"
definition NSFIC :: string where "NSFIC = ''No Such File In Conditions Analysis''"

definition C_CPP_KEYWORDS :: "string list" where
  "C_CPP_KEYWORDS =
     [''auto'', ''break'', ''case'', ''catch'', ''char'', ''const'',
      ''continue'', ''default'', ''do'', ''double'', ''else'',
      ''enum'', ''extern'', ''float'', ''for'', ''goto'', ''if'',
      ''int'', ''long'', ''register'', ''return'', ''short'',
      ''signed'', ''sizeof'', ''static'', ''struct'', ''switch'', ''try'',
      ''typedef'', ''union'', ''unsigned'', ''void'', ''volatile'', ''while'', ''when'']"

subsection \<open>The token pattern \<open>C_VAR_NAME\<close>\<close>

text \<open>
  \<open>[_a-zA-Z]+[_a-zA-Z0-9.\[\]]*\<close>. The first class is contained in the second, so a
  match starts at a character of the first class and runs as far as characters of the
  second class go; \<open>finditer\<close> lists the matches from left to right, each search
  resuming where the previous match ended.
\<close>

definition name_start :: "char \<Rightarrow> bool" where
  "name_start c = (c = CHR ''_'' \<or> in_range 0x61 0x7A c \<or> in_range 0x41 0x5A c)"

definition name_cont :: "char \<Rightarrow> bool" where
  "name_cont c =
     (name_start c \<or> in_range 0x30 0x39 c \<or> c = CHR ''.'' \<or> c = CHR ''['' \<or> c = CHR '']'')"

function finditer_from :: "int \<Rightarrow> string \<Rightarrow> (int \<times> int) list" where
  "finditer_from i [] = []"
| "finditer_from i (c # cs) =
     (if name_start c
      then (i, i + 1 + int (length (takeWhile name_cont cs)))
             # finditer_from (i + 1 + int (length (takeWhile name_cont cs)))
                 (dropWhile name_cont cs)
      else finditer_from (i + 1) cs)"
  by pat_completeness auto
termination
  by (relation "measure (\<lambda>(i, s). length s)")
     (auto simp: less_Suc_eq_le length_dropWhile_le)

definition finditer :: "string \<Rightarrow> (int \<times> int) list" where
  "finditer line = finditer_from 0 line"

section \<open>The lexical filter\<close>

definition are_all_letters_uppercase :: "string \<Rightarrow> bool" where
  "are_all_letters_uppercase s = list_all isupper (filter isalpha s)"

text \<open>
  The test of lines 119 to 121, with Python's left-to-right \<open>or\<close>: the character before
  the span is read first, the character after it only when the first is no quote.
\<close>

definition adjacent_excluded :: "string \<Rightarrow> int \<Rightarrow> int \<Rightarrow> error + bool" where
  "adjacent_excluded lstr start end' =
     (case py_index lstr (max 0 (start - 1)) of
        Inl e \<Rightarrow> Inl e
      | Inr prev \<Rightarrow>
          if prev = CHR 0x27 \<or> prev = CHR 0x22 then Inr True
          else (case py_index lstr (min (int (length lstr) - 1) end') of
                  Inl e \<Rightarrow> Inl e
                | Inr follow \<Rightarrow>
                    Inr (follow = CHR 0x27 \<or> follow = CHR 0x22
                         \<or> prev = CHR '')'' \<or> follow = CHR ''('')))"

text \<open>The loop of \<open>name_filter\<close>, with the list \<open>res\<close> built so far.\<close>

fun name_filter_loop :: "string \<Rightarrow> bool \<Rightarrow> string list \<Rightarrow> (int \<times> int) list \<Rightarrow> error + string list" where
  "name_filter_loop lstr cap_assert res [] = Inr res"
| "name_filter_loop lstr cap_assert res ((start, end') # it) =
     (case adjacent_excluded lstr start end' of
        Inl e \<Rightarrow> Inl e
      | Inr True \<Rightarrow> name_filter_loop lstr cap_assert res it
      | Inr False \<Rightarrow>
          (let tok = py_slice lstr start end'
           in if tok \<notin> set res \<and> tok \<notin> set C_CPP_KEYWORDS
                 \<and> (\<not> are_all_letters_uppercase tok \<or> \<not> cap_assert)
              then name_filter_loop lstr cap_assert (res @ [tok]) it
              else name_filter_loop lstr cap_assert res it))"

definition name_filter :: "string \<Rightarrow> (int \<times> int) list \<Rightarrow> bool \<Rightarrow> error + string list" where
  "name_filter lstr it cap_assert = name_filter_loop lstr cap_assert [] it"

section \<open>The filesystem and the report\<close>

text \<open>
  A \<open>pathlib.Path\<close> is modelled by its string. The filesystem answers three questions:
  \<open>rglob d pat\<close> is \<open>list(pathlib.Path(d).rglob(pat))\<close>, \<open>absolute p\<close> is
  \<open>str(p.absolute())\<close>, and \<open>readlines a\<close> is the result of \<open>open(a).readlines()\<close>,
  \<open>None\<close> when \<open>open\<close> raises (a directory, a file that cannot be read).
\<close>

type_synonym path = string

record filesystem =
  rglob :: "string \<Rightarrow> string \<Rightarrow> path list"
  absolute :: "path \<Rightarrow> string"
  readlines :: "string \<Rightarrow> string list option"

text \<open>\<open>pathlib.Path()\<close>, the current directory\<close>

definition Path :: string where
  "Path = ''.''"

record args =
  input_file :: string
  output_file :: string
  root_dir :: string
  copy_range :: int
  cap_not_name :: bool

record location =
  fl :: string
  ln :: int
  cl :: int

record branch_loc =
  bfl :: string
  bln :: int

record cond_path =
  BranchLoc :: branch_loc
  BranchCond :: string
  CondCodeNear :: "string option"

text \<open>
  A warning of the report. \<open>ConditionalFreePath\<close> is the list
  \<open>warn["Description"]["ConditionalFreePath"]\<close>, read for a partial leak only. The last
  four fields are the keys that the transformer adds.
\<close>

record warning =
  DefectType :: string
  Location :: location
  Function :: string
  ConditionalFreePath :: "cond_path list"
  Var :: "string list"
  CodeNear :: "string list"
  SuccessTransform :: string
  TransformMessage :: string

section \<open>\<open>deal_duplicate\<close>\<close>

text \<open>The inner loop over \<open>lines[:ln]\<close> that sets \<open>flag\<close> and breaks.\<close>

fun func_name_flag :: "string \<Rightarrow> string list \<Rightarrow> bool" where
  "func_name_flag func_name [] = False"
| "func_name_flag func_name (line # rest) =
     (if str_in func_name line then True else func_name_flag func_name rest)"

fun deal_duplicate_loop ::
  "filesystem \<Rightarrow> int \<Rightarrow> int \<Rightarrow> string \<Rightarrow> path list \<Rightarrow> path list \<Rightarrow> error + path list" where
  "deal_duplicate_loop fs ln' co func_name res [] = Inr res"
| "deal_duplicate_loop fs ln' co func_name res (file # files) =
     (case readlines fs (absolute fs file) of
        None \<Rightarrow> Inl OSError
      | Some lines \<Rightarrow>
          if int (length lines) < ln' then deal_duplicate_loop fs ln' co func_name res files
          else (case py_index lines (ln' - 1) of
                  Inl e \<Rightarrow> Inl e
                | Inr line \<Rightarrow>
                    if int (length line) < co
                    then deal_duplicate_loop fs ln' co func_name res files
                    else if func_name \<noteq> []
                            \<and> \<not> func_name_flag func_name (py_slice_to lines ln')
                    then deal_duplicate_loop fs ln' co func_name res files
                    else deal_duplicate_loop fs ln' co func_name (res @ [file]) files))"

definition deal_duplicate ::
  "filesystem \<Rightarrow> int \<Rightarrow> int \<Rightarrow> path list \<Rightarrow> string \<Rightarrow> error + (int \<times> path option)" where
  "deal_duplicate fs ln' co files func_name =
     (case deal_duplicate_loop fs ln' co func_name [] files of
        Inl e \<Rightarrow> Inl e
      | Inr res \<Rightarrow>
          if length res > 1 then Inr (1, None)
          else if length res = 1 then Inr (0, Some (res ! 0))
          else Inr (- 1, None))"

section \<open>The main loop\<close>

text \<open>
  The two assignments to \<open>warn["SuccessTransform"]\<close> and \<open>warn["TransformMessage"]\<close>
  that the loop makes together. The calls of \<open>SRT_log\<close> only print and are left out.
\<close>

definition mark :: "string \<Rightarrow> string \<Rightarrow> warning \<Rightarrow> warning" where
  "mark flag msg warn = warn\<lparr>SuccessTransform := flag, TransformMessage := msg\<rparr>"

text \<open>Lines 253 to 256: the line of the branch is read from the resolved file.\<close>

definition cond_excerpt ::
  "filesystem \<Rightarrow> warning \<Rightarrow> cond_path \<Rightarrow> path \<Rightarrow> error + (warning \<times> cond_path)" where
  "cond_excerpt fs warn cond src_file =
     (case readlines fs (absolute fs src_file) of
        None \<Rightarrow> Inl OSError
      | Some lines \<Rightarrow>
          (case py_index lines (bln (BranchLoc cond) - 1) of
             Inl e \<Rightarrow> Inl e
           | Inr line \<Rightarrow> Inr (warn, cond\<lparr>CondCodeNear := Some (rstrip (lstrip line))\<rparr>)))"

text \<open>
  One iteration of the loop over the conditional paths (lines 221 to 256). Every
  \<open>continue\<close> of this loop ends the iteration and hands the warning and the entry, as
  they are, to the next one.
\<close>

definition process_cond ::
  "filesystem \<Rightarrow> warning \<Rightarrow> cond_path \<Rightarrow> error + (warning \<times> cond_path)" where
  "process_cond fs warn cond =
     (let svf_file = bfl (BranchLoc cond);
          ori_path = rglob fs Path svf_file
      in if length ori_path = 1
         then cond_excerpt fs warn
                (cond\<lparr>BranchLoc := (BranchLoc cond)\<lparr>bfl := ori_path ! 0\<rparr>\<rparr>) (ori_path ! 0)
         else if length ori_path = 0
         then Inr (mark false NSF warn, cond)
         else (case deal_duplicate fs (ln (Location warn)) (cl (Location warn)) ori_path [] of
                 Inl e \<Rightarrow> Inl e
               | Inr (flag, src_file) \<Rightarrow>
                   if flag = 1 then Inr (mark false DFFIC warn, cond)
                   else if flag = - 1 then Inr (mark false NSFIC warn, cond)
                   else (case src_file of
                           None \<Rightarrow> Inl AttributeError
                         | Some p \<Rightarrow> cond_excerpt fs warn cond p)))"

fun process_conds ::
  "filesystem \<Rightarrow> warning \<Rightarrow> cond_path list \<Rightarrow> error + (warning \<times> cond_path list)" where
  "process_conds fs warn [] = Inr (warn, [])"
| "process_conds fs warn (cond # rest) =
     (case process_cond fs warn cond of
        Inl e \<Rightarrow> Inl e
      | Inr (warn', cond') \<Rightarrow>
          (case process_conds fs warn' rest of
             Inl e \<Rightarrow> Inl e
           | Inr (warn'', rest') \<Rightarrow> Inr (warn'', cond' # rest')))"

text \<open>Lines 201 to 258, reached with the resolved \<open>src_file\<close>.\<close>

definition transform ::
  "filesystem \<Rightarrow> args \<Rightarrow> warning \<Rightarrow> path \<Rightarrow> error + warning" where
  "transform fs a warn src_file =
     (case readlines fs (absolute fs src_file) of
        None \<Rightarrow> Inl OSError
      | Some lines \<Rightarrow>
          (let l = ln (Location warn)
           in case py_index lines (l - 1) of
                Inl e \<Rightarrow> Inl e
              | Inr line \<Rightarrow>
                  (case name_filter line (finditer line) (cap_not_name a) of
                     Inl e \<Rightarrow> Inl e
                   | Inr var_name \<Rightarrow>
                       (let near = py_slice lines (max 0 (l - 1 - copy_range a))
                                     (min (int (length lines)) (l + copy_range a));
                            warn1 = warn\<lparr>Var := var_name,
                                          CodeNear := map (\<lambda>line. rstrip (lstrip line)) near\<rparr>
                        in if DefectType warn1 = PL
                           then (case process_conds fs warn1 (ConditionalFreePath warn1) of
                                   Inl e \<Rightarrow> Inl e
                                 | Inr (warn2, conds) \<Rightarrow>
                                     Inr (mark true AC (warn2\<lparr>ConditionalFreePath := conds\<rparr>)))
                           else Inr (mark true AC warn1)))))"

text \<open>
  The body of the loop over the report for one warning (lines 162 to 258). An exception
  ends the run, so its value carries no report.
\<close>

definition process_warn :: "filesystem \<Rightarrow> args \<Rightarrow> warning \<Rightarrow> error + warning" where
  "process_warn fs a warn0 =
     (let warn = warn0\<lparr>Var := [], CodeNear := [], SuccessTransform := [],
                       TransformMessage := []\<rparr>;
          svf_file = fl (Location warn);
          ori_path = rglob fs Path svf_file
      in if length ori_path = 1
         then transform fs a (warn\<lparr>Location := (Location warn)\<lparr>fl := ori_path ! 0\<rparr>\<rparr>)
                (ori_path ! 0)
         else if length ori_path = 0
         then Inr (mark false NSF warn)
         else (case deal_duplicate fs (ln (Location warn)) (cl (Location warn)) ori_path
                      (Function warn) of
                 Inl e \<Rightarrow> Inl e
               | Inr (flag, src_file) \<Rightarrow>
                   if flag = 1 then Inr (mark false DFF warn)
                   else if flag = - 1 then Inr (mark false NSF warn)
                   else (case src_file of
                           None \<Rightarrow> Inl AttributeError
                         | Some p \<Rightarrow> transform fs a warn p)))"

fun process_report :: "filesystem \<Rightarrow> args \<Rightarrow> warning list \<Rightarrow> error + warning list" where
  "process_report fs a [] = Inr []"
| "process_report fs a (warn # rest) =
     (case process_warn fs a warn of
        Inl e \<Rightarrow> Inl e
      | Inr warn' \<Rightarrow>
          (case process_report fs a rest of
             Inl e \<Rightarrow> Inl e
           | Inr rest' \<Rightarrow> Inr (warn' # rest')))"

section \<open>Notions used to state the properties\<close>

subsection \<open>The lexical filter\<close>

text \<open>The text \<open>lstr[start:end]\<close> of a span.\<close>

definition token :: "string \<Rightarrow> int \<times> int \<Rightarrow> string" where
  "token lstr sp = py_slice lstr (fst sp) (snd sp)"

text \<open>
  A span survives when no quote or parenthesis stands next to it, its text is no keyword,
  and its text is not dropped by the all-caps policy.
\<close>

definition survives :: "string \<Rightarrow> bool \<Rightarrow> int \<times> int \<Rightarrow> bool" where
  "survives lstr cap_assert sp =
     (adjacent_excluded lstr (fst sp) (snd sp) = Inr False
      \<and> token lstr sp \<notin> set C_CPP_KEYWORDS
      \<and> (\<not> are_all_letters_uppercase (token lstr sp) \<or> \<not> cap_assert))"

text \<open>A list without its repetitions: each element stays where it occurs first.\<close>

fun first_occurrences :: "'a list \<Rightarrow> 'a list" where
  "first_occurrences [] = []"
| "first_occurrences (x # xs) = x # filter (\<lambda>y. y \<noteq> x) (first_occurrences xs)"

subsection \<open>Disambiguation, in the words of the specification\<close>

text \<open>
  A candidate with the given lines is rejected when it has fewer than \<open>line\<close> lines, when
  its \<open>line\<close>-th line is shorter than \<open>column\<close> characters, and, for a non-empty hint,
  when none of its first \<open>line\<close> lines contains the hint as a substring.
\<close>

definition candidate_accepted :: "string list \<Rightarrow> int \<Rightarrow> int \<Rightarrow> string \<Rightarrow> bool" where
  "candidate_accepted lines line column hint =
     (\<not> int (length lines) < line
      \<and> \<not> int (length (lines ! nat (line - 1))) < column
      \<and> (hint \<noteq> [] \<longrightarrow> list_ex (sublist hint) (take (nat line) lines)))"

text \<open>
  The answer for the candidates that remain, as \<open>deal_duplicate\<close> encodes it: \<open>-1\<close> is
  NotFound, \<open>0\<close> with the file is Ok, \<open>1\<close> is Ambiguous.
\<close>

definition resolution_of :: "path list \<Rightarrow> int \<times> path option" where
  "resolution_of kept =
     (case kept of [] \<Rightarrow> (- 1, None) | [p] \<Rightarrow> (0, Some p) | _ \<Rightarrow> (1, None))"

subsection \<open>The resolved file of a location\<close>

text \<open>
  The value of \<open>src_file\<close> with which line 201 is reached, \<open>None\<close> when the warning is
  marked and left at lines 181 to 199.
\<close>

definition primary_source :: "filesystem \<Rightarrow> warning \<Rightarrow> error + path option" where
  "primary_source fs warn =
     (let ori_path = rglob fs Path (fl (Location warn))
      in if length ori_path = 1 then Inr (Some (ori_path ! 0))
         else if length ori_path = 0 then Inr None
         else (case deal_duplicate fs (ln (Location warn)) (cl (Location warn)) ori_path
                      (Function warn) of
                 Inl e \<Rightarrow> Inl e
               | Inr (flag, src_file) \<Rightarrow> Inr (if flag = 0 then src_file else None)))"

text \<open>
  The same for one conditional path: the value of \<open>src_file\<close> with which line 253 is
  reached, \<open>None\<close> when the iteration ends at lines 232 to 252.
\<close>

definition cond_source :: "filesystem \<Rightarrow> warning \<Rightarrow> cond_path \<Rightarrow> error + path option" where
  "cond_source fs warn cond =
     (let ori_path = rglob fs Path (bfl (BranchLoc cond))
      in if length ori_path = 1 then Inr (Some (ori_path ! 0))
         else if length ori_path = 0 then Inr None
         else (case deal_duplicate fs (ln (Location warn)) (cl (Location warn)) ori_path [] of
                 Inl e \<Rightarrow> Inl e
               | Inr (flag, src_file) \<Rightarrow> Inr (if flag = 0 then src_file else None)))"

text \<open>The window of the excerpt, in the words of the specification: the lines numbered
  from \<open>max(1, L - R)\<close> to \<open>min(lastLine, L + R)\<close>, trimmed.\<close>

definition excerpt_window :: "string list \<Rightarrow> int \<Rightarrow> int \<Rightarrow> string list" where
  "excerpt_window lines L R =
     map (\<lambda>i. rstrip (lstrip (lines ! nat (i - 1))))
       [max 1 (L - R) .. min (int (length lines)) (L + R)]"

text \<open>The warning as it stands when line 201 is reached: the four keys initialised, and
  the file of the location overwritten at line 179 when the name has a single match.\<close>

definition entered :: "filesystem \<Rightarrow> warning \<Rightarrow> warning" where
  "entered fs warn0 =
     (let warn = warn0\<lparr>Var := [], CodeNear := [], SuccessTransform := [],
                       TransformMessage := []\<rparr>;
          ori_path = rglob fs Path (fl (Location warn))
      in if length ori_path = 1
         then warn\<lparr>Location := (Location warn)\<lparr>fl := ori_path ! 0\<rparr>\<rparr>
         else warn)"

section \<open>A source tree and reports for the examples\<close>

definition nl :: "string \<Rightarrow> string" where
  "nl s = s @ [CHR 0x0A]"

definition main_c :: "string list" where
  "main_c = map nl
     [''int main() {'',
      ''  char *p;'',
      ''  int n = 3;'',
      ''  p = malloc(n);'',
      ''  if (n > 2) {'',
      ''    n = n - 1;'',
      ''  }'',
      ''  if (n) {'',
      ''    free(p);'',
      ''  p = buf[0].q;'',
      ''  return 0;'',
      ''}'']"

definition util_a :: "string list" where
  "util_a = map nl [''/* util */'']"

definition util_b :: "string list" where
  "util_b = map nl [''void release(char *q) {'', ''  free(q);'', ''}'']"

definition lib_c :: "string list" where
  "lib_c = map nl [''int v;'']"

text \<open>
  The current directory is \<open>/w\<close>. Below it are \<open>src/main.c\<close> and two files
  \<open>util.c\<close>; the file \<open>lib.c\<close> is in \<open>/srv/proj\<close>, outside of it.
\<close>

definition tree :: filesystem where
  "tree =
     \<lparr>rglob = (\<lambda>d pat.
         if d = ''.'' then
           (if pat = ''main.c'' then [''src/main.c'']
            else if pat = ''util.c'' then [''a/util.c'', ''b/util.c'']
            else [])
         else if d = ''/srv/proj'' \<and> pat = ''lib.c'' then [''/srv/proj/lib.c'']
         else []),
      absolute = (\<lambda>p. if take 1 p = ''/'' then p else ''/w/'' @ p),
      readlines = (\<lambda>a.
         if a = ''/w/src/main.c'' then Some main_c
         else if a = ''/w/a/util.c'' then Some util_a
         else if a = ''/w/b/util.c'' then Some util_b
         else if a = ''/srv/proj/lib.c'' then Some lib_c
         else None)\<rparr>"

definition default_args :: args where
  "default_args =
     \<lparr>input_file = ''in.json'', output_file = ''out.json'', root_dir = ''./'',
      copy_range = 5, cap_not_name = True\<rparr>"

definition blank :: "string \<Rightarrow> string \<Rightarrow> int \<Rightarrow> int \<Rightarrow> string \<Rightarrow> cond_path list \<Rightarrow> warning" where
  "blank kind file line col func conds =
     \<lparr>DefectType = kind, Location = \<lparr>fl = file, ln = line, cl = col\<rparr>, Function = func,
      ConditionalFreePath = conds, Var = [], CodeNear = [], SuccessTransform = [],
      TransformMessage = []\<rparr>"

definition branch :: "string \<Rightarrow> int \<Rightarrow> cond_path" where
  "branch file line =
     \<lparr>BranchLoc = \<lparr>bfl = file, bln = line\<rparr>, BranchCond = ''True'', CondCodeNear = None\<rparr>"

text \<open>A never-free warning at line 10 of \<open>main.c\<close>.\<close>

definition nf_warn :: warning where
  "nf_warn = blank ''Never Free'' ''main.c'' 10 3 ''main'' []"

text \<open>A partial leak whose first conditional path names a file that does not exist and
  whose second names \<open>main.c\<close>.\<close>

definition pl_warn :: warning where
  "pl_warn = blank ''Partial Leak'' ''main.c'' 4 3 ''main''
               [branch ''gone.c'' 2, branch ''main.c'' 8]"

text \<open>A partial leak in \<open>main.c\<close> with one conditional path in \<open>util.c\<close>, a name
  that two files bear.\<close>

definition pl_util_warn :: "int \<Rightarrow> int \<Rightarrow> warning" where
  "pl_util_warn line branch_line =
     blank ''Partial Leak'' ''main.c'' line 3 ''main'' [branch ''util.c'' branch_line]"

text \<open>A double free at line 3 of \<open>util.c\<close>, a name that two files bear.\<close>

definition df_warn :: warning where
  "df_warn = blank ''Double Free'' ''util.c'' 3 1 [] []"

text \<open>A warning in \<open>lib.c\<close>, and one beyond the end of \<open>main.c\<close>.\<close>

definition lib_warn :: warning where
  "lib_warn = blank ''Never Free'' ''lib.c'' 1 1 [] []"

definition far_warn :: warning where
  "far_warn = blank ''Never Free'' ''main.c'' 13 1 ''main'' []"

text \<open>The partial leak \<open>pl_warn\<close> as the transformer leaves it.\<close>

definition pl_warn_out :: warning where
  "pl_warn_out =
     (blank ''Partial Leak'' ''src/main.c'' 4 3 ''main''
        [branch ''gone.c'' 2, (branch ''src/main.c'' 8)\<lparr>CondCodeNear := Some ''if (n) {''\<rparr>])
     \<lparr>Var := [''p'', ''n''],
      CodeNear := [''int main() {'', ''char *p;'', ''int n = 3;'', ''p = malloc(n);'',
                   ''if (n > 2) {'', ''n = n - 1;'', ''}'', ''if (n) {'', ''free(p);''],
      SuccessTransform := ''True''\<rparr>"

section \<open>Auxiliary facts\<close>

subsection \<open>Indexing and slicing\<close>

lemma py_index_in_range:
  "1 \<le> i \<Longrightarrow> i \<le> int (length xs) \<Longrightarrow> py_index xs (i - 1) = Inr (xs ! nat (i - 1))"
  by (simp add: py_index_def Let_def)

lemma py_index_beyond:
  "int (length xs) < i \<Longrightarrow> py_index xs (i - 1) = Inl IndexError"
  by (simp add: py_index_def Let_def)

lemma py_slice_window:
  assumes "0 \<le> L + R"
  shows "map f (py_slice lines (max 0 (L - 1 - R)) (min (int (length lines)) (L + R)))
           = map (\<lambda>i. f (lines ! nat (i - 1)))
               [max 1 (L - R) .. min (int (length lines)) (L + R)]"
proof -
  define n where "n = int (length lines)"
  define a where "a = max 0 (L - 1 - R)"
  define b where "b = min n (L + R)"
  have a0: "0 \<le> a" and b0: "0 \<le> b" and bn: "b \<le> n"
    using assms by (simp_all add: a_def b_def n_def)
  have lo: "max 1 (L - R) = a + 1" by (simp add: a_def max_def)
  have sa: "slice_bound n a = nat (min n a)"
    using a0 by (simp add: slice_bound_def Let_def max_def)
  have sb: "slice_bound n b = nat b"
    using b0 bn by (simp add: slice_bound_def Let_def max_def min_def)
  have sl: "py_slice lines a b = drop (nat (min n a)) (take (nat b) lines)"
    using sa sb by (simp add: py_slice_def n_def Let_def)
  have len_l: "length (py_slice lines a b) = nat (b - a)"
    using a0 b0 bn by (simp add: sl n_def min_def) linarith
  have "map f (py_slice lines a b) = map (\<lambda>i. f (lines ! nat (i - 1))) [a + 1 .. b]"
  proof (rule nth_equalityI)
    show "length (map f (py_slice lines a b))
            = length (map (\<lambda>i. f (lines ! nat (i - 1))) [a + 1 .. b])"
      using len_l by simp
  next
    fix i
    assume "i < length (map f (py_slice lines a b))"
    then have i: "int i < b - a" using len_l by simp
    with bn have an: "a < n" by linarith
    have k: "nat (min n a) = nat a" using an by (simp add: min_def)
    have in_take: "nat a + i < nat b" using i a0 by linarith
    have in_lines: "nat b \<le> length lines" using bn by (simp add: n_def)
    have left: "py_slice lines a b ! i = lines ! (nat a + i)"
      using in_take in_lines by (simp add: sl k)
    have right: "[a + 1 .. b] ! i = a + 1 + int i"
      using i by simp
    have "nat (a + 1 + int i - 1) = nat a + i" using a0 by linarith
    with left right i len_l show "map f (py_slice lines a b) ! i
            = map (\<lambda>i. f (lines ! nat (i - 1))) [a + 1 .. b] ! i"
      by simp
  qed
  then show ?thesis by (simp add: lo a_def b_def n_def)
qed

subsection \<open>The lexical filter\<close>

lemma set_first_occurrences: "set (first_occurrences xs) = set xs"
  by (induction xs) auto

lemma distinct_first_occurrences: "distinct (first_occurrences xs)"
  by (induction xs) (auto simp: set_first_occurrences)

lemma subseq_first_occurrences: "subseq (first_occurrences xs) xs"
proof (induction xs)
  case Nil
  show ?case by simp
next
  case (Cons x xs)
  have "subseq (filter (\<lambda>y. y \<noteq> x) (first_occurrences xs)) (first_occurrences xs)"
    by simp
  then have "subseq (filter (\<lambda>y. y \<noteq> x) (first_occurrences xs)) xs"
    using Cons.IH subseq_order.order_trans by blast
  then show ?case by simp
qed

lemma name_filter_loop_char:
  "name_filter_loop lstr cap res it = Inr out \<Longrightarrow>
   out = res @ filter (\<lambda>t. t \<notin> set res)
                 (first_occurrences (map (token lstr) (filter (survives lstr cap) it)))"
proof (induction it arbitrary: res)
  case Nil
  then show ?case by simp
next
  case (Cons sp it)
  obtain s e where sp: "sp = (s, e)" by (cases sp)
  show ?case
  proof (cases "adjacent_excluded lstr s e")
    case (Inl err)
    with Cons.prems sp show ?thesis by simp
  next
    case (Inr b)
    show ?thesis
    proof (cases "survives lstr cap sp \<and> token lstr sp \<notin> set res")
      case True
      with Inr sp have b: "b = False" by (simp add: survives_def)
      from True Cons.prems sp Inr b
      have "name_filter_loop lstr cap (res @ [token lstr sp]) it = Inr out"
        by (simp add: survives_def token_def Let_def)
      from Cons.IH [OF this]
      have "out = (res @ [token lstr sp]) @ filter (\<lambda>t. t \<notin> set (res @ [token lstr sp]))
                 (first_occurrences (map (token lstr) (filter (survives lstr cap) it)))" .
      moreover have "filter (\<lambda>t. t \<notin> set res) (filter (\<lambda>y. y \<noteq> token lstr sp) ys)
            = filter (\<lambda>t. t \<notin> set (res @ [token lstr sp])) ys" for ys
        by (induction ys) auto
      ultimately show ?thesis using True by simp
    next
      case False
      from False Cons.prems sp Inr
      have loop: "name_filter_loop lstr cap res it = Inr out"
        by (cases b) (auto simp: survives_def token_def Let_def split: if_splits)
      note ih = Cons.IH [OF loop]
      show ?thesis
      proof (cases "survives lstr cap sp")
        case True
        with False have mem: "token lstr sp \<in> set res" by simp
        have "filter (\<lambda>t. t \<notin> set res) (filter (\<lambda>y. y \<noteq> token lstr sp) ys)
            = filter (\<lambda>t. t \<notin> set res) ys" for ys
          using mem by (induction ys) auto
        with ih True mem show ?thesis by simp
      next
        case False
        with ih show ?thesis by simp
      qed
    qed
  qed
qed

lemma name_filter_char:
  "name_filter lstr it cap = Inr out \<Longrightarrow>
   out = first_occurrences (map (token lstr) (filter (survives lstr cap) it))"
  using name_filter_loop_char [of lstr cap "[]" it out] by (simp add: name_filter_def)

lemma finditer_from_bounds:
  "(s, e) \<in> set (finditer_from i cs) \<Longrightarrow> i \<le> s \<and> s < e \<and> e \<le> i + int (length cs)"
proof (induction i cs rule: finditer_from.induct)
  case (1 i)
  then show ?case by simp
next
  case (2 i c cs)
  have len: "length (takeWhile name_cont cs) + length (dropWhile name_cont cs) = length cs"
    by (metis length_append takeWhile_dropWhile_id)
  show ?case
  proof (cases "name_start c")
    case True
    with "2.prems" have "(s, e) = (i, i + 1 + int (length (takeWhile name_cont cs)))
       \<or> (s, e) \<in> set (finditer_from (i + 1 + int (length (takeWhile name_cont cs))) (dropWhile name_cont cs))"
      by simp
    then show ?thesis
    proof
      assume "(s, e) = (i, i + 1 + int (length (takeWhile name_cont cs)))"
      then show ?thesis using len by auto
    next
      assume "(s, e) \<in> set (finditer_from (i + 1 + int (length (takeWhile name_cont cs))) (dropWhile name_cont cs))"
      from "2.IH"(1) [OF True this] show ?thesis using len by auto
    qed
  next
    case False
    with "2.prems" have "(s, e) \<in> set (finditer_from (i + 1) cs)" by simp
    from "2.IH"(2) [OF False this] show ?thesis by auto
  qed
qed

lemma adjacent_excluded_in_bounds:
  "0 \<le> s \<Longrightarrow> s < int (length lstr) \<Longrightarrow> 0 \<le> e \<Longrightarrow> \<exists>b. adjacent_excluded lstr s e = Inr b"
  by (auto simp: adjacent_excluded_def py_index_def Let_def max_def min_def)

lemma name_filter_loop_returns:
  "\<forall>(s, e) \<in> set it. 0 \<le> s \<and> s < int (length lstr) \<and> 0 \<le> e \<Longrightarrow>
   \<exists>out. name_filter_loop lstr cap res it = Inr out"
proof (induction it arbitrary: res)
  case Nil
  then show ?case by simp
next
  case (Cons sp it)
  obtain s e where sp: "sp = (s, e)" by (cases sp)
  from Cons.prems sp obtain b where b: "adjacent_excluded lstr s e = Inr b"
    using adjacent_excluded_in_bounds [of s lstr e] by auto
  from Cons.prems have rest: "\<forall>(s, e) \<in> set it. 0 \<le> s \<and> s < int (length lstr) \<and> 0 \<le> e"
    by simp
  show ?case using sp b Cons.IH [OF rest] by (cases b) (simp_all add: Let_def)
qed

lemma name_filter_finditer_returns:
  "\<exists>out. name_filter line (finditer line) cap = Inr out"
proof -
  have "\<forall>(s, e) \<in> set (finditer line). 0 \<le> s \<and> s < int (length line) \<and> 0 \<le> e"
    using finditer_from_bounds [of _ _ 0 line] by (fastforce simp: finditer_def)
  then show ?thesis unfolding name_filter_def by (rule name_filter_loop_returns)
qed

subsection \<open>Disambiguation\<close>

lemma str_in_sublist: "str_in sub s = sublist sub s"
  by (induction s) (simp_all add: sublist_Cons_right)

lemma func_name_flag_ex: "func_name_flag func_name ls = list_ex (sublist func_name) ls"
  by (induction ls) (simp_all add: str_in_sublist)

lemma py_slice_to_take:
  "0 \<le> b \<Longrightarrow> py_slice_to xs b = take (nat b) xs"
  by (simp add: py_slice_to_def slice_bound_def Let_def min_def max_def)

lemma deal_duplicate_loop_char:
  assumes "1 \<le> line"
    and "\<forall>f \<in> set files. readlines fs (absolute fs f) = Some (content f)"
  shows "deal_duplicate_loop fs line column hint res files
           = Inr (res @ filter (\<lambda>f. candidate_accepted (content f) line column hint) files)"
  using assms(2)
proof (induction files arbitrary: res)
  case Nil
  show ?case by simp
next
  case (Cons f files)
  from Cons.prems have rd: "readlines fs (absolute fs f) = Some (content f)" by simp
  from Cons.prems have rest: "\<forall>f \<in> set files. readlines fs (absolute fs f) = Some (content f)"
    by simp
  note ih = Cons.IH [OF rest]
  show ?case
  proof (cases "int (length (content f)) < line")
    case True
    then show ?thesis using rd ih by (simp add: candidate_accepted_def)
  next
    case False
    with assms(1) have idx: "py_index (content f) (line - 1) = Inr (content f ! nat (line - 1))"
      by (simp add: py_index_in_range)
    from assms(1) have tk: "py_slice_to (content f) line = take (nat line) (content f)"
      by (simp add: py_slice_to_take)
    show ?thesis using False rd idx tk ih
      by (simp add: candidate_accepted_def func_name_flag_ex)
  qed
qed

lemma deal_duplicate_char:
  assumes "1 \<le> line"
    and "\<forall>f \<in> set files. readlines fs (absolute fs f) = Some (content f)"
  shows "deal_duplicate fs line column files hint
           = Inr (resolution_of (filter (\<lambda>f. candidate_accepted (content f) line column hint) files))"
proof -
  let ?kept = "filter (\<lambda>f. candidate_accepted (content f) line column hint) files"
  have loop: "deal_duplicate_loop fs line column hint [] files = Inr ?kept"
    using deal_duplicate_loop_char [OF assms, of column hint "[]"] by simp
  show ?thesis
  proof (cases ?kept)
    case Nil
    then show ?thesis using loop by (simp add: deal_duplicate_def resolution_of_def)
  next
    case (Cons p ps)
    then show ?thesis using loop
      by (cases ps) (simp_all add: deal_duplicate_def resolution_of_def)
  qed
qed

subsection \<open>Marks and conditional paths\<close>

lemma mark_mark: "mark f m (mark f' m' w) = mark f m w"
  by (simp add: mark_def)

lemma cond_excerpt_warn:
  "cond_excerpt fs w c p = Inr (w', c') \<Longrightarrow> w' = w"
  by (auto simp: cond_excerpt_def split: option.splits sum.splits)

lemma process_cond_warn:
  "process_cond fs w c = Inr (w', c') \<Longrightarrow> \<exists>f m. w' = mark f m w"
proof -
  assume pc: "process_cond fs w c = Inr (w', c')"
  have same: "w = mark (SuccessTransform w) (TransformMessage w) w"
    by (simp add: mark_def)
  from pc have "w' = w \<or> (\<exists>m. w' = mark false m w)"
    by (auto simp: process_cond_def Let_def
             split: if_splits sum.splits prod.splits option.splits
             dest: cond_excerpt_warn)
  then show ?thesis using same by metis
qed

lemma process_conds_warn:
  "process_conds fs w cs = Inr (w', cs') \<Longrightarrow> \<exists>f m. w' = mark f m w"
proof (induction cs arbitrary: w w' cs')
  case Nil
  then have "w' = mark (SuccessTransform w) (TransformMessage w) w"
    by (simp add: mark_def)
  then show ?case by blast
next
  case (Cons c cs)
  from Cons.prems obtain w1 c1 w2 cs2
    where one: "process_cond fs w c = Inr (w1, c1)"
      and rest: "process_conds fs w1 cs = Inr (w2, cs2)"
      and res: "w' = w2"
    by (auto split: sum.splits prod.splits)
  from process_cond_warn [OF one] obtain f m where w1: "w1 = mark f m w" by blast
  from Cons.IH [OF rest] obtain f' m' where "w2 = mark f' m' w1" by blast
  with w1 res have "w' = mark f' m' w" by (simp add: mark_mark)
  then show ?case by blast
qed

subsection \<open>The main loop\<close>

lemma deal_duplicate_flag:
  "deal_duplicate fs l c files h = Inr (flag, src) \<Longrightarrow>
   (flag = 1 \<or> flag = 0 \<or> flag = - 1) \<and> (flag = 0 \<longleftrightarrow> src \<noteq> None)"
  by (auto simp: deal_duplicate_def split: sum.splits if_splits)

lemma process_warn_resolved:
  assumes "primary_source fs warn = Inr (Some src)"
  shows "process_warn fs a warn = transform fs a (entered fs warn) src"
proof (cases "length (rglob fs Path (fl (Location warn))) = 1")
  case True
  with assms show ?thesis
    by (simp add: primary_source_def process_warn_def entered_def Let_def)
next
  case False
  with assms have many: "length (rglob fs Path (fl (Location warn))) \<noteq> 0"
    by (auto simp: primary_source_def Let_def split: if_splits)
  from assms False many obtain flag
    where dd: "deal_duplicate fs (ln (Location warn)) (cl (Location warn))
                 (rglob fs Path (fl (Location warn))) (Function warn) = Inr (flag, Some src)"
      and fl0: "flag = 0"
    by (auto simp: primary_source_def Let_def split: sum.splits prod.splits if_splits)
  show ?thesis using False many dd fl0
    by (simp add: process_warn_def entered_def Let_def)
qed

lemma transform_fields:
  assumes "transform fs a w src = Inr w'"
    and "readlines fs (absolute fs src) = Some lines"
  shows "CodeNear w' = map (\<lambda>line. rstrip (lstrip line))
           (py_slice lines (max 0 (ln (Location w) - 1 - copy_range a))
              (min (int (length lines)) (ln (Location w) + copy_range a)))"
    and "SuccessTransform w' = true" and "TransformMessage w' = AC"
    and "Location w' = Location w"
proof -
  from assms obtain line names
    where idx: "py_index lines (ln (Location w) - 1) = Inr line"
      and nf: "name_filter line (finditer line) (cap_not_name a) = Inr names"
    by (auto simp: transform_def Let_def split: sum.splits)
  define w1 where "w1 = w\<lparr>Var := names, CodeNear := map (\<lambda>line. rstrip (lstrip line))
           (py_slice lines (max 0 (ln (Location w) - 1 - copy_range a))
              (min (int (length lines)) (ln (Location w) + copy_range a)))\<rparr>"
  have "\<exists>f m conds. w' = mark true AC ((mark f m w1)\<lparr>ConditionalFreePath := conds\<rparr>)"
  proof (cases "DefectType w = PL")
    case True
    with assms idx nf obtain w2 conds
      where pcs: "process_conds fs w1 (ConditionalFreePath w1) = Inr (w2, conds)"
        and res: "w' = mark true AC (w2\<lparr>ConditionalFreePath := conds\<rparr>)"
      by (auto simp: transform_def Let_def w1_def split: sum.splits prod.splits)
    from process_conds_warn [OF pcs] res show ?thesis by blast
  next
    case False
    with assms idx nf have "w' = mark true AC w1"
      by (auto simp: transform_def Let_def w1_def)
    then have "w' = mark true AC ((mark [] [] w1)\<lparr>ConditionalFreePath := ConditionalFreePath w1\<rparr>)"
      by (simp add: mark_def)
    then show ?thesis by blast
  qed
  then obtain f m conds
    where w': "w' = mark true AC ((mark f m w1)\<lparr>ConditionalFreePath := conds\<rparr>)" by blast
  show "CodeNear w' = map (\<lambda>line. rstrip (lstrip line))
           (py_slice lines (max 0 (ln (Location w) - 1 - copy_range a))
              (min (int (length lines)) (ln (Location w) + copy_range a)))"
    by (simp add: w' w1_def mark_def)
  show "SuccessTransform w' = true" by (simp add: w' mark_def)
  show "TransformMessage w' = AC" by (simp add: w' mark_def)
  show "Location w' = Location w" by (simp add: w' w1_def mark_def)
qed

lemma entered_line: "ln (Location (entered fs warn)) = ln (Location warn)"
  by (simp add: entered_def Let_def)

lemma process_report_append:
  "process_report fs a before = Inr done \<Longrightarrow>
   process_report fs a (before @ rest) =
     (case process_report fs a rest of Inl e \<Rightarrow> Inl e | Inr out \<Rightarrow> Inr (done @ out))"
proof (induction before arbitrary: "done")
  case Nil
  then show ?case by (simp split: sum.splits)
next
  case (Cons w ws)
  from Cons.prems obtain w' ws' where one: "process_warn fs a w = Inr w'"
    and more: "process_report fs a ws = Inr ws'" and d: "done = w' # ws'"
    by (auto split: sum.splits)
  from Cons.IH [OF more] one d show ?case by (simp split: sum.splits)
qed

lemma process_report_raises:
  "warn \<in> set report \<Longrightarrow> process_warn fs a warn = Inl e \<Longrightarrow>
   \<exists>e'. process_report fs a report = Inl e'"
  by (induction report) (auto split: sum.splits)

lemma cond_excerpt_mark:
  "cond_excerpt fs (mark f m w) c p = Inr (wr, c') \<Longrightarrow> cond_excerpt fs w c p = Inr (w, c')"
  by (auto simp: cond_excerpt_def split: option.splits sum.splits)

lemma Location_mark: "Location (mark f m w) = Location w"
  by (simp add: mark_def)

lemma process_cond_mark:
  assumes "process_cond fs (mark f m w) c = Inr (wr, c')"
  shows "\<exists>wr'. process_cond fs w c = Inr (wr', c')"
  using assms
  by (auto simp: process_cond_def Let_def Location_mark
           split: if_splits sum.splits prod.splits option.splits
           dest: cond_excerpt_mark)

lemma process_conds_entries:
  "process_conds fs w cs = Inr (w', cs') \<Longrightarrow>
   list_all2 (\<lambda>c c'. \<exists>wr. process_cond fs w c = Inr (wr, c')) cs cs'"
proof (induction cs arbitrary: w w' cs')
  case Nil
  then show ?case by simp
next
  case (Cons c cs)
  from Cons.prems obtain w1 c1 w2 cs2
    where one: "process_cond fs w c = Inr (w1, c1)"
      and rest: "process_conds fs w1 cs = Inr (w2, cs2)"
      and res: "cs' = c1 # cs2"
    by (auto split: sum.splits prod.splits)
  from process_cond_warn [OF one] obtain f m where w1: "w1 = mark f m w" by blast
  from Cons.IH [OF rest]
  have "list_all2 (\<lambda>c c'. \<exists>wr. process_cond fs (mark f m w) c = Inr (wr, c')) cs cs2"
    by (simp add: w1)
  then have "list_all2 (\<lambda>c c'. \<exists>wr. process_cond fs w c = Inr (wr, c')) cs cs2"
    by (rule list_all2_mono) (blast dest: process_cond_mark)
  with one res show ?case by auto
qed

lemma cond_source_cong:
  "ln (Location w1) = ln (Location w2) \<Longrightarrow> cl (Location w1) = cl (Location w2) \<Longrightarrow>
   cond_source fs w1 c = cond_source fs w2 c"
  by (simp add: cond_source_def Let_def)

lemma process_cond_unresolved:
  assumes "cond_source fs w c = Inr None" and "process_cond fs w c = Inr (wr, c')"
  shows "c' = c"
proof (cases "length (rglob fs Path (bfl (BranchLoc c))) = 1")
  case True
  with assms(1) show ?thesis by (simp add: cond_source_def)
next
  case False
  show ?thesis
  proof (cases "length (rglob fs Path (bfl (BranchLoc c))) = 0")
    case True
    with assms(2) show ?thesis by (simp add: process_cond_def)
  next
    case many: False
    from assms(2) False many obtain flag src
      where dd: "deal_duplicate fs (ln (Location w)) (cl (Location w))
                   (rglob fs Path (bfl (BranchLoc c))) [] = Inr (flag, src)"
      by (auto simp: process_cond_def Let_def split: sum.splits prod.splits)
    from assms(1) False many dd have "flag \<noteq> 0 \<or> src = None"
      by (auto simp: cond_source_def Let_def)
    with deal_duplicate_flag [OF dd] have "flag = 1 \<or> flag = - 1" by auto
    with assms(2) False many dd show ?thesis
      by (auto simp: process_cond_def Let_def)
  qed
qed

lemma process_cond_resolved:
  assumes "cond_source fs w c = Inr (Some p)" and "process_cond fs w c = Inr (wr, c')"
  shows "\<exists>lines line. readlines fs (absolute fs p) = Some lines
           \<and> py_index lines (bln (BranchLoc c) - 1) = Inr line
           \<and> CondCodeNear c' = Some (rstrip (lstrip line))
           \<and> (rglob fs Path (bfl (BranchLoc c)) = [p] \<longrightarrow> bfl (BranchLoc c') = p)"
proof (cases "length (rglob fs Path (bfl (BranchLoc c))) = 1")
  case True
  with assms(1) have p: "rglob fs Path (bfl (BranchLoc c)) ! 0 = p"
    by (simp add: cond_source_def)
  from assms(2) True p
  have "cond_excerpt fs w (c\<lparr>BranchLoc := (BranchLoc c)\<lparr>bfl := p\<rparr>\<rparr>) p = Inr (wr, c')"
    by (simp add: process_cond_def)
  then show ?thesis
    by (auto simp: cond_excerpt_def split: option.splits sum.splits)
next
  case False
  with assms(1) have many: "length (rglob fs Path (bfl (BranchLoc c))) \<noteq> 0"
    by (auto simp: cond_source_def Let_def split: if_splits)
  from assms(1) False many
  have dd: "deal_duplicate fs (ln (Location w)) (cl (Location w))
              (rglob fs Path (bfl (BranchLoc c))) [] = Inr (0, Some p)"
    by (auto simp: cond_source_def Let_def split: sum.splits prod.splits if_splits)
  from assms(2) False many dd have "cond_excerpt fs w c p = Inr (wr, c')"
    by (simp add: process_cond_def)
  moreover from False have "rglob fs Path (bfl (BranchLoc c)) \<noteq> [p]" by auto
  ultimately show ?thesis
    by (auto simp: cond_excerpt_def split: option.splits sum.splits)
qed

lemma transform_conds:
  assumes "transform fs a w src = Inr w'" and "DefectType w = PL"
  shows "\<exists>w1 w2. ln (Location w1) = ln (Location w) \<and> cl (Location w1) = cl (Location w)
           \<and> process_conds fs w1 (ConditionalFreePath w) = Inr (w2, ConditionalFreePath w')"
proof -
  from assms(1) obtain lines line names
    where rd: "readlines fs (absolute fs src) = Some lines"
      and idx: "py_index lines (ln (Location w) - 1) = Inr line"
      and nf: "name_filter line (finditer line) (cap_not_name a) = Inr names"
    by (auto simp: transform_def Let_def split: option.splits sum.splits)
  define w1 where "w1 = w\<lparr>Var := names, CodeNear := map (\<lambda>line. rstrip (lstrip line))
           (py_slice lines (max 0 (ln (Location w) - 1 - copy_range a))
              (min (int (length lines)) (ln (Location w) + copy_range a)))\<rparr>"
  from assms rd idx nf obtain w2 conds
    where pcs: "process_conds fs w1 (ConditionalFreePath w1) = Inr (w2, conds)"
      and res: "w' = mark true AC (w2\<lparr>ConditionalFreePath := conds\<rparr>)"
    by (auto simp: transform_def Let_def w1_def split: sum.splits prod.splits)
  have "ConditionalFreePath w' = conds" by (simp add: res mark_def)
  moreover have "ConditionalFreePath w1 = ConditionalFreePath w" by (simp add: w1_def)
  moreover have "ln (Location w1) = ln (Location w)" "cl (Location w1) = cl (Location w)"
    by (simp_all add: w1_def)
  ultimately show ?thesis using pcs by metis
qed

lemma entered_fields:
  "cl (Location (entered fs warn)) = cl (Location warn)"
  "DefectType (entered fs warn) = DefectType warn"
  "ConditionalFreePath (entered fs warn) = ConditionalFreePath warn"
  by (simp_all add: entered_def Let_def)

lemma transform_reads:
  "transform fs a w src = Inr w' \<Longrightarrow> \<exists>lines. readlines fs (absolute fs src) = Some lines"
  by (cases "readlines fs (absolute fs src)") (simp_all add: transform_def)

lemma transform_status:
  assumes "transform fs a w src = Inr w'"
  shows "SuccessTransform w' = true \<and> TransformMessage w' = AC \<and> Location w' = Location w"
proof -
  from transform_reads [OF assms] obtain lines
    where "readlines fs (absolute fs src) = Some lines" by blast
  with assms show ?thesis by (simp add: transform_fields)
qed

lemma resolved_warning_ends_success:
  assumes "primary_source fs warn = Inr (Some src)"
    and "process_warn fs a warn = Inr warn'"
  shows "SuccessTransform warn' = true \<and> TransformMessage warn' = AC"
proof -
  from assms have "transform fs a (entered fs warn) src = Inr warn'"
    by (simp add: process_warn_resolved)
  then show ?thesis by (simp add: transform_status)
qed

lemma file_overwritten_on_single_match_only:
  assumes "length (rglob fs Path (fl (Location warn))) \<noteq> 1"
    and "process_warn fs a warn = Inr warn'"
  shows "fl (Location warn') = fl (Location warn)"
proof (cases "length (rglob fs Path (fl (Location warn))) = 0")
  case True
  with assms(2) show ?thesis by (auto simp: process_warn_def mark_def)
next
  case False
  from assms False obtain flag src_file
    where dd: "deal_duplicate fs (ln (Location warn)) (cl (Location warn))
                 (rglob fs Path (fl (Location warn))) (Function warn) = Inr (flag, src_file)"
    by (auto simp: process_warn_def Let_def split: sum.splits prod.splits)
  show ?thesis
  proof (cases "flag = 1 \<or> flag = - 1")
    case True
    with assms False dd show ?thesis
      by (auto simp: process_warn_def Let_def mark_def)
  next
    case other: False
    with deal_duplicate_flag [OF dd] obtain p where p: "src_file = Some p" by auto
    from assms False dd other p
    have "transform fs a (warn\<lparr>Var := [], CodeNear := [], SuccessTransform := [],
                              TransformMessage := []\<rparr>) p = Inr warn'"
      by (simp add: process_warn_def Let_def)
    from transform_status [OF this] show ?thesis by simp
  qed
qed

section \<open>Properties of the lexical filter\<close>

text \<open>
  C7. Whatever the source line and the candidate spans, a list returned by the lexical
  filter has no repeated string and no C/C++ keyword; it is the list of the texts of the
  surviving spans in the order of the spans, each text at its first occurrence. On the
  spans that the token pattern finds in a line the filter always returns, and on the line
  \<open>int for = while;\<close> it returns the empty list.
\<close>

theorem name_filter_output:
  "(name_filter lstr it cap_assert = Inr out \<longrightarrow>
      distinct out
      \<and> set out \<inter> set C_CPP_KEYWORDS = {}
      \<and> out = first_occurrences (map (token lstr) (filter (survives lstr cap_assert) it))
      \<and> subseq out (map (token lstr) it))
   \<and> (\<exists>names. name_filter lstr (finditer lstr) cap_assert = Inr names)
   \<and> name_filter ''int for = while;'' (finditer ''int for = while;'') cap_assert = Inr []"
proof (intro conjI impI)
  assume run: "name_filter lstr it cap_assert = Inr out"
  let ?toks = "map (token lstr) (filter (survives lstr cap_assert) it)"
  from run show eq: "out = first_occurrences ?toks" by (rule name_filter_char)
  show "distinct out" by (simp add: eq distinct_first_occurrences)
  have "set out = set ?toks" by (simp add: eq set_first_occurrences)
  then show "set out \<inter> set C_CPP_KEYWORDS = {}" by (auto simp: survives_def)
  have "subseq out ?toks" by (simp add: eq subseq_first_occurrences)
  moreover have "subseq ?toks (map (token lstr) it)" by (simp add: subseq_map)
  ultimately show "subseq out (map (token lstr) it)"
    using subseq_order.order_trans by blast
next
  show "\<exists>names. name_filter lstr (finditer lstr) cap_assert = Inr names"
    by (rule name_filter_finditer_returns)
next
  show "name_filter ''int for = while;'' (finditer ''int for = while;'') cap_assert = Inr []"
  proof (cases cap_assert)
    case True
    have "name_filter ''int for = while;'' (finditer ''int for = while;'') True = Inr []"
      by code_simp
    with True show ?thesis by simp
  next
    case False
    have "name_filter ''int for = while;'' (finditer ''int for = while;'') False = Inr []"
      by code_simp
    with False show ?thesis by simp
  qed
qed

theorem name_filter_output_witness:
  "name_filter ''a = b + a;'' (finditer ''a = b + a;'') True = Inr [''a'', ''b'']
   \<and> distinct [''a'', ''b'']
   \<and> set [''a'', ''b''] \<inter> set C_CPP_KEYWORDS = {}
   \<and> subseq [''a'', ''b''] (map (token ''a = b + a;'') (finditer ''a = b + a;''))"
proof -
  have run: "name_filter ''a = b + a;'' (finditer ''a = b + a;'') True = Inr [''a'', ''b'']"
    by code_simp
  with name_filter_output [of "''a = b + a;''" "finditer ''a = b + a;''" True "[''a'', ''b'']"]
  show ?thesis by blast
qed

text \<open>
  C10. The all-caps test holds of every string without an alphabetic character. Hence,
  with the all-caps policy enabled, no span whose text has no alphabetic character reaches
  the output of the filter: in \<open>_ = x;\<close> the token \<open>_\<close> is dropped, and it is kept when
  the policy is disabled.
\<close>

theorem all_caps_test_without_letters:
  "((\<forall>c \<in> set s. \<not> isalpha c) \<longrightarrow> are_all_letters_uppercase s)
   \<and> (name_filter lstr it True = Inr out \<longrightarrow>
        (\<forall>sp \<in> set it. (\<forall>c \<in> set (token lstr sp). \<not> isalpha c) \<longrightarrow> token lstr sp \<notin> set out))
   \<and> name_filter ''_ = x;'' (finditer ''_ = x;'') True = Inr [''x'']
   \<and> name_filter ''_ = x;'' (finditer ''_ = x;'') False = Inr [''_'', ''x'']"
proof (intro conjI impI ballI)
  assume none: "\<forall>c \<in> set s. \<not> isalpha c"
  then have "filter isalpha s = []" by (simp add: filter_empty_conv)
  then show "are_all_letters_uppercase s" by (simp add: are_all_letters_uppercase_def)
next
  fix sp
  assume run: "name_filter lstr it True = Inr out"
    and none: "\<forall>c \<in> set (token lstr sp). \<not> isalpha c"
  from none have "filter isalpha (token lstr sp) = []" by (simp add: filter_empty_conv)
  then have caps: "are_all_letters_uppercase (token lstr sp)"
    by (simp add: are_all_letters_uppercase_def)
  from run have "out = first_occurrences (map (token lstr) (filter (survives lstr True) it))"
    by (rule name_filter_char)
  then have "set out = set (map (token lstr) (filter (survives lstr True) it))"
    by (simp only: set_first_occurrences)
  then have "\<forall>t \<in> set out. \<not> are_all_letters_uppercase t"
    by (auto simp: survives_def)
  with caps show "token lstr sp \<notin> set out" by blast
next
  show "name_filter ''_ = x;'' (finditer ''_ = x;'') True = Inr [''x'']" by code_simp
next
  show "name_filter ''_ = x;'' (finditer ''_ = x;'') False = Inr [''_'', ''x'']" by code_simp
qed

theorem all_caps_test_without_letters_witness:
  "are_all_letters_uppercase ''_0[1].''
   \<and> name_filter ''_ = x;'' (finditer ''_ = x;'') True = Inr [''x'']
   \<and> token ''_ = x;'' (0, 1) = ''_''
   \<and> ''_'' \<notin> set [''x'']"
proof -
  have none: "\<forall>c \<in> set ''_0[1].''. \<not> isalpha c" by code_simp
  have run: "name_filter ''_ = x;'' (finditer ''_ = x;'') True = Inr [''x'']" by code_simp
  have sp: "(0, 1) \<in> set (finditer ''_ = x;'')" by code_simp
  have tok: "token ''_ = x;'' (0, 1) = ''_''" by code_simp
  have none': "\<forall>c \<in> set (token ''_ = x;'' (0, 1)). \<not> isalpha c" by code_simp
  note inst = all_caps_test_without_letters
                [of "''_0[1].''" "''_ = x;''" "finditer ''_ = x;''" "[''x'']"]
  from inst none have caps: "are_all_letters_uppercase ''_0[1].''" by blast
  from inst run sp none' have "token ''_ = x;'' (0, 1) \<notin> set [''x'']" by blast
  with tok have out: "''_'' \<notin> set [''x'']" by simp
  from caps run tok out show ?thesis by blast
qed

section \<open>Properties of the disambiguation\<close>

text \<open>
  C6. For a line number of at least 1 and candidates that can all be read,
  \<open>deal_duplicate\<close> keeps exactly the candidates that have at least \<open>line\<close> lines, whose
  \<open>line\<close>-th line has at least \<open>column\<close> characters and, for a non-empty hint, one of
  whose first \<open>line\<close> lines contains the hint. It answers NotFound (\<open>-1\<close>) when none is
  kept, Ok (\<open>0\<close>) with the candidate when one is kept, Ambiguous (\<open>1\<close>) when more are.
\<close>

theorem deal_duplicate_resolution:
  assumes "1 \<le> line"
    and "\<forall>f \<in> set files. readlines fs (absolute fs f) = Some (content f)"
    and "kept = filter (\<lambda>f. candidate_accepted (content f) line column hint) files"
  shows "(kept = [] \<longrightarrow> deal_duplicate fs line column files hint = Inr (- 1, None))
       \<and> (\<forall>p. kept = [p] \<longrightarrow> deal_duplicate fs line column files hint = Inr (0, Some p))
       \<and> (1 < length kept \<longrightarrow> deal_duplicate fs line column files hint = Inr (1, None))"
proof -
  have loop: "deal_duplicate_loop fs line column hint [] files = Inr kept"
    using deal_duplicate_loop_char [OF assms(1) assms(2), of column hint "[]"] assms(3)
    by simp
  show ?thesis
  proof (intro conjI allI impI)
    assume "kept = []"
    with loop show "deal_duplicate fs line column files hint = Inr (- 1, None)"
      by (simp add: deal_duplicate_def)
  next
    fix p
    assume "kept = [p]"
    with loop show "deal_duplicate fs line column files hint = Inr (0, Some p)"
      by (simp add: deal_duplicate_def)
  next
    assume "1 < length kept"
    with loop show "deal_duplicate fs line column files hint = Inr (1, None)"
      by (simp add: deal_duplicate_def)
  qed
qed

theorem deal_duplicate_resolution_witness:
  "(1::int) \<le> 2
   \<and> readlines tree (absolute tree ''a/util.c'') = Some util_a
   \<and> readlines tree (absolute tree ''b/util.c'') = Some util_b
   \<and> length util_a = 1 \<and> length util_b = 3
   \<and> deal_duplicate tree 2 3 [''a/util.c'', ''b/util.c''] ''release'' = Inr (0, Some ''b/util.c'')"
proof -
  define content where "content = (\<lambda>f. if f = ''a/util.c'' then util_a else util_b)"
  have line: "(1::int) \<le> 2" by simp
  have a: "readlines tree (absolute tree ''a/util.c'') = Some util_a" by code_simp
  have b: "readlines tree (absolute tree ''b/util.c'') = Some util_b" by code_simp
  have la: "length util_a = 1" and lb: "length util_b = 3" by code_simp+
  have rd: "\<forall>f \<in> set [''a/util.c'', ''b/util.c''].
              readlines tree (absolute tree f) = Some (content f)"
    by (simp add: a b content_def)
  have ka: "\<not> candidate_accepted util_a 2 3 ''release''" by code_simp
  have kb: "candidate_accepted util_b 2 3 ''release''" by code_simp
  have kept: "[''b/util.c''] =
      filter (\<lambda>f. candidate_accepted (content f) 2 3 ''release'') [''a/util.c'', ''b/util.c'']"
    by (simp add: content_def ka kb)
  from deal_duplicate_resolution [OF line rd kept]
  have "deal_duplicate tree 2 3 [''a/util.c'', ''b/util.c''] ''release'' = Inr (0, Some ''b/util.c'')"
    by blast
  with line a b la lb show ?thesis by blast
qed

section \<open>Properties of the main loop\<close>

text \<open>
  C8. For a warning whose file is resolved and whose processing returns, with line \<open>L\<close>,
  copy range \<open>R\<close> and \<open>0 \<le> L + R\<close> (every \<open>R \<ge> 0\<close> at a line \<open>L \<ge> 1\<close>), the stored
  excerpt is the list of the lines numbered \<open>max(1, L - R)\<close> to \<open>min(lastLine, L + R)\<close> of
  the resolved file, each trimmed on both sides, in the order of the file.
\<close>

theorem excerpt_is_window:
  assumes "process_warn fs a warn = Inr warn'"
    and "primary_source fs warn = Inr (Some src)"
    and "readlines fs (absolute fs src) = Some lines"
    and "0 \<le> ln (Location warn) + copy_range a"
  shows "CodeNear warn' = excerpt_window lines (ln (Location warn)) (copy_range a)"
proof -
  from assms(1) have tr: "transform fs a (entered fs warn) src = Inr warn'"
    by (simp add: process_warn_resolved [OF assms(2)])
  from transform_fields(1) [OF tr assms(3)]
  have "CodeNear warn' = map (\<lambda>line. rstrip (lstrip line))
           (py_slice lines (max 0 (ln (Location warn) - 1 - copy_range a))
              (min (int (length lines)) (ln (Location warn) + copy_range a)))"
    by (simp add: entered_line)
  also have "\<dots> = excerpt_window lines (ln (Location warn)) (copy_range a)"
    unfolding excerpt_window_def by (rule py_slice_window [OF assms(4)])
  finally show ?thesis .
qed

theorem excerpt_is_window_witness:
  "primary_source tree nf_warn = Inr (Some ''src/main.c'')
   \<and> readlines tree (absolute tree ''src/main.c'') = Some main_c
   \<and> length main_c = 12 \<and> ln (Location nf_warn) = 10 \<and> copy_range default_args = 5
   \<and> map_sum id CodeNear (process_warn tree default_args nf_warn)
        = Inr (map (\<lambda>i. rstrip (lstrip (main_c ! nat (i - 1)))) [5 .. 12])
   \<and> excerpt_window main_c 10 5
        = [''if (n > 2) {'', ''n = n - 1;'', ''}'', ''if (n) {'', ''free(p);'',
           ''p = buf[0].q;'', ''return 0;'', ''}'']"
proof -
  obtain r where run: "process_warn tree default_args nf_warn = Inr r"
    by (cases "process_warn tree default_args nf_warn")
       (simp_all, code_simp)
  have src: "primary_source tree nf_warn = Inr (Some ''src/main.c'')" by code_simp
  have rd: "readlines tree (absolute tree ''src/main.c'') = Some main_c" by code_simp
  have len: "length main_c = 12" by code_simp
  have l: "ln (Location nf_warn) = 10" by code_simp
  have R: "copy_range default_args = 5" by code_simp
  have pos: "0 \<le> ln (Location nf_warn) + copy_range default_args" by (simp add: l R)
  from excerpt_is_window [OF run src rd pos]
  have near: "CodeNear r = excerpt_window main_c 10 5" by (simp add: l R)
  have win: "excerpt_window main_c 10 5 = map (\<lambda>i. rstrip (lstrip (main_c ! nat (i - 1)))) [5 .. 12]"
    by (simp add: excerpt_window_def len)
  have val: "excerpt_window main_c 10 5
        = [''if (n > 2) {'', ''n = n - 1;'', ''}'', ''if (n) {'', ''free(p);'',
           ''p = buf[0].q;'', ''return 0;'', ''}'']" by code_simp
  from run near win have "map_sum id CodeNear (process_warn tree default_args nf_warn)
        = Inr (map (\<lambda>i. rstrip (lstrip (main_c ! nat (i - 1)))) [5 .. 12])" by simp
  with src rd len l R val show ?thesis by blast
qed

text \<open>
  C9. When the file name of a warning has exactly one match, the line is read without any
  check of the number of lines of that file: the match is taken as resolved whatever the
  line, and a line number beyond the end of the file raises \<open>IndexError\<close>. The exception
  is not caught, so every report that holds such a warning ends in an exception, and it
  ends in this one when the warnings before it are processed.
\<close>

theorem unique_match_line_beyond_file:
  assumes "rglob fs Path (fl (Location warn)) = [p]"
    and "readlines fs (absolute fs p) = Some lines"
    and "int (length lines) < ln (Location warn)"
  shows "primary_source fs warn = Inr (Some p)
       \<and> process_warn fs a warn = Inl IndexError
       \<and> (\<forall>report. warn \<in> set report \<longrightarrow> (\<exists>e. process_report fs a report = Inl e))
       \<and> (\<forall>before rest. (\<exists>done. process_report fs a before = Inr done) \<longrightarrow>
             process_report fs a (before @ warn # rest) = Inl IndexError)"
proof -
  from assms(1) have src: "primary_source fs warn = Inr (Some p)"
    by (simp add: primary_source_def)
  from assms(3) have "py_index lines (ln (Location warn) - 1) = Inl IndexError"
    by (rule py_index_beyond)
  then have "transform fs a (entered fs warn) p = Inl IndexError"
    using assms(2) by (simp add: transform_def entered_line)
  then have one: "process_warn fs a warn = Inl IndexError"
    by (simp add: process_warn_resolved [OF src])
  have all: "\<forall>report. warn \<in> set report \<longrightarrow> (\<exists>e. process_report fs a report = Inl e)"
    using one process_report_raises by blast
  have "process_report fs a (before @ warn # rest) = Inl IndexError"
    if "\<exists>done. process_report fs a before = Inr done" for before rest
  proof -
    from that obtain "done" where "process_report fs a before = Inr done" by blast
    from process_report_append [OF this, of "warn # rest"] one show ?thesis by simp
  qed
  with src one all show ?thesis by blast
qed

theorem unique_match_line_beyond_file_witness:
  "rglob tree Path (fl (Location far_warn)) = [''src/main.c'']
   \<and> readlines tree (absolute tree ''src/main.c'') = Some main_c
   \<and> int (length main_c) < ln (Location far_warn)
   \<and> process_warn tree default_args far_warn = Inl IndexError
   \<and> process_report tree default_args [nf_warn, far_warn, df_warn] = Inl IndexError"
proof -
  have m: "rglob tree Path (fl (Location far_warn)) = [''src/main.c'']" by code_simp
  have rd: "readlines tree (absolute tree ''src/main.c'') = Some main_c" by code_simp
  have far: "int (length main_c) < ln (Location far_warn)" by code_simp
  note inst = unique_match_line_beyond_file [OF m rd far, of default_args]
  have pre: "\<exists>done. process_report tree default_args [nf_warn] = Inr done"
    by (cases "process_report tree default_args [nf_warn]") (simp_all, code_simp)
  from inst have one: "process_warn tree default_args far_warn = Inl IndexError" by blast
  from inst pre have "process_report tree default_args ([nf_warn] @ far_warn # [df_warn]) = Inl IndexError"
    by blast
  then have "process_report tree default_args [nf_warn, far_warn, df_warn] = Inl IndexError"
    by simp
  with m rd far one show ?thesis by blast
qed

section \<open>Properties of the conditional paths\<close>

text \<open>
  C2 (as amended). For a partial leak whose file is resolved and whose processing returns,
  every conditional path is processed, whatever happened to the paths before it: a path
  that fails to resolve is left untouched, and a path that resolves, before or after a
  failing one, receives the trimmed line of its branch as excerpt, and the resolved path
  as file when its name has a single match.
\<close>

theorem conditional_paths_each_processed:
  assumes "process_warn fs a warn = Inr warn'"
    and "DefectType warn = PL"
    and "primary_source fs warn = Inr (Some src)"
  shows "length (ConditionalFreePath warn') = length (ConditionalFreePath warn)
       \<and> (\<forall>i < length (ConditionalFreePath warn).
            (cond_source fs warn (ConditionalFreePath warn ! i) = Inr None \<longrightarrow>
               ConditionalFreePath warn' ! i = ConditionalFreePath warn ! i)
          \<and> (\<forall>p. cond_source fs warn (ConditionalFreePath warn ! i) = Inr (Some p) \<longrightarrow>
               (\<exists>lines line.
                  readlines fs (absolute fs p) = Some lines
                  \<and> py_index lines (bln (BranchLoc (ConditionalFreePath warn ! i)) - 1) = Inr line
                  \<and> CondCodeNear (ConditionalFreePath warn' ! i) = Some (rstrip (lstrip line))
                  \<and> (rglob fs Path (bfl (BranchLoc (ConditionalFreePath warn ! i))) = [p] \<longrightarrow>
                       bfl (BranchLoc (ConditionalFreePath warn' ! i)) = p))))"
proof -
  let ?cs = "ConditionalFreePath warn" and ?cs' = "ConditionalFreePath warn'"
  from assms(1) have tr: "transform fs a (entered fs warn) src = Inr warn'"
    by (simp add: process_warn_resolved [OF assms(3)])
  from transform_conds [OF tr] assms(2) obtain w1 w2
    where l: "ln (Location w1) = ln (Location warn)"
      and c: "cl (Location w1) = cl (Location warn)"
      and pcs: "process_conds fs w1 ?cs = Inr (w2, ?cs')"
    by (auto simp: entered_line entered_fields)
  have src_eq: "cond_source fs w1 x = cond_source fs warn x" for x
    using l c by (rule cond_source_cong)
  from process_conds_entries [OF pcs]
  have all: "list_all2 (\<lambda>c c'. \<exists>wr. process_cond fs w1 c = Inr (wr, c')) ?cs ?cs'" .
  then have len: "length ?cs' = length ?cs" by (simp add: list_all2_lengthD)
  have each: "\<exists>wr. process_cond fs w1 (?cs ! i) = Inr (wr, ?cs' ! i)" if "i < length ?cs" for i
    using all that by (simp add: list_all2_conv_all_nth)
  show ?thesis
  proof (intro conjI allI impI)
    show "length ?cs' = length ?cs" by (rule len)
  next
    fix i
    assume i: "i < length ?cs" and none: "cond_source fs warn (?cs ! i) = Inr None"
    from each [OF i] obtain wr where "process_cond fs w1 (?cs ! i) = Inr (wr, ?cs' ! i)" by blast
    with none show "?cs' ! i = ?cs ! i"
      using process_cond_unresolved [of fs w1 "?cs ! i" wr "?cs' ! i"] by (simp add: src_eq)
  next
    fix i p
    assume i: "i < length ?cs" and some: "cond_source fs warn (?cs ! i) = Inr (Some p)"
    from each [OF i] obtain wr where "process_cond fs w1 (?cs ! i) = Inr (wr, ?cs' ! i)" by blast
    with some show "\<exists>lines line.
                  readlines fs (absolute fs p) = Some lines
                  \<and> py_index lines (bln (BranchLoc (?cs ! i)) - 1) = Inr line
                  \<and> CondCodeNear (?cs' ! i) = Some (rstrip (lstrip line))
                  \<and> (rglob fs Path (bfl (BranchLoc (?cs ! i))) = [p] \<longrightarrow>
                       bfl (BranchLoc (?cs' ! i)) = p)"
      using process_cond_resolved [of fs w1 "?cs ! i" p wr "?cs' ! i"] by (simp add: src_eq)
  qed
qed

theorem conditional_paths_each_processed_witness:
  "process_warn tree default_args pl_warn = Inr pl_warn_out
   \<and> DefectType pl_warn = PL
   \<and> primary_source tree pl_warn = Inr (Some ''src/main.c'')
   \<and> cond_source tree pl_warn (ConditionalFreePath pl_warn ! 0) = Inr None
   \<and> cond_source tree pl_warn (ConditionalFreePath pl_warn ! 1) = Inr (Some ''src/main.c'')
   \<and> length (ConditionalFreePath pl_warn_out) = 2
   \<and> ConditionalFreePath pl_warn_out ! 0 = ConditionalFreePath pl_warn ! 0
   \<and> bfl (BranchLoc (ConditionalFreePath pl_warn_out ! 1)) = ''src/main.c''"
proof -
  have run: "process_warn tree default_args pl_warn = Inr pl_warn_out" by code_simp
  have kind: "DefectType pl_warn = PL" by code_simp
  have src: "primary_source tree pl_warn = Inr (Some ''src/main.c'')" by code_simp
  have c0: "cond_source tree pl_warn (ConditionalFreePath pl_warn ! 0) = Inr None"
    by code_simp
  have c1: "cond_source tree pl_warn (ConditionalFreePath pl_warn ! 1) = Inr (Some ''src/main.c'')"
    by code_simp
  have len: "length (ConditionalFreePath pl_warn) = 2" by code_simp
  have one: "rglob tree Path (bfl (BranchLoc (ConditionalFreePath pl_warn ! 1))) = [''src/main.c'']"
    by code_simp
  note inst = conditional_paths_each_processed [OF run kind src]
  from inst len have l: "length (ConditionalFreePath pl_warn_out) = 2" by simp
  from inst len c0 have e0: "ConditionalFreePath pl_warn_out ! 0 = ConditionalFreePath pl_warn ! 0"
    by simp
  have i1: "(1::nat) < length (ConditionalFreePath pl_warn)" by (simp add: len)
  from inst i1 c1 one have e1: "bfl (BranchLoc (ConditionalFreePath pl_warn_out ! 1)) = ''src/main.c''"
    by blast
  from run kind src c0 c1 l e0 e1 show ?thesis by blast
qed

text \<open>
  C2 as stated fails: in \<open>pl_warn\<close> the first conditional path does not resolve (no file
  \<open>gone.c\<close>), and the second, which comes after it, has its file overwritten and its
  excerpt stored.
\<close>

theorem later_conditional_path_processed:
  "cond_source tree pl_warn (branch ''gone.c'' 2) = Inr None
   \<and> ConditionalFreePath pl_warn = [branch ''gone.c'' 2, branch ''main.c'' 8]
   \<and> map_sum id ConditionalFreePath (process_warn tree default_args pl_warn)
       = Inr [branch ''gone.c'' 2,
              \<lparr>BranchLoc = \<lparr>bfl = ''src/main.c'', bln = 8\<rparr>, BranchCond = ''True'',
               CondCodeNear = Some ''if (n) {''\<rparr>]"
  by code_simp

text \<open>
  C1. The code does not do this. In \<open>pl_warn\<close> the first conditional path has no match:
  its iteration marks the warning with \<open>False\<close> and \<open>No Such File\<close> (not the message of
  the conditions analysis), and in \<open>pl_util_warn 10 2\<close> the disambiguation of the path
  finds no candidate and the iteration marks it with the message of the conditions
  analysis; both warnings leave the loop body with \<open>True\<close> and the empty message, as
  every warning with a resolved file does (\<open>resolved_warning_ends_success\<close>).
\<close>

theorem failed_conditional_path_ends_success:
  "cond_source tree pl_warn (branch ''gone.c'' 2) = Inr None
   \<and> process_cond tree pl_warn (branch ''gone.c'' 2)
       = Inr (mark ''False'' ''No Such File'' pl_warn, branch ''gone.c'' 2)
   \<and> map_sum id (\<lambda>w. (SuccessTransform w, TransformMessage w))
        (process_warn tree default_args pl_warn) = Inr (''True'', [])
   \<and> process_cond tree (pl_util_warn 10 2) (branch ''util.c'' 2)
       = Inr (mark ''False'' ''No Such File In Conditions Analysis'' (pl_util_warn 10 2),
              branch ''util.c'' 2)
   \<and> map_sum id (\<lambda>w. (SuccessTransform w, TransformMessage w))
        (process_warn tree default_args (pl_util_warn 10 2)) = Inr (''True'', [])"
  by code_simp

text \<open>
  C3. The code does not do this. The name \<open>util.c\<close> of \<open>df_warn\<close> has two matches and the
  disambiguation resolves it to \<open>b/util.c\<close>; the warning is transformed with success and
  its file is still \<open>util.c\<close>. With the single match of \<open>nf_warn\<close> the file becomes the
  path as found, \<open>src/main.c\<close>, not the absolute path \<open>/w/src/main.c\<close> that is opened.
  The file is overwritten on a single match only (\<open>file_overwritten_on_single_match_only\<close>).
\<close>

theorem disambiguated_file_not_overwritten:
  "rglob tree Path ''util.c'' = [''a/util.c'', ''b/util.c'']
   \<and> primary_source tree df_warn = Inr (Some ''b/util.c'')
   \<and> absolute tree ''b/util.c'' = ''/w/b/util.c''
   \<and> map_sum id (\<lambda>w. (fl (Location w), SuccessTransform w))
        (process_warn tree default_args df_warn) = Inr (''util.c'', ''True'')
   \<and> primary_source tree nf_warn = Inr (Some ''src/main.c'')
   \<and> absolute tree ''src/main.c'' = ''/w/src/main.c''
   \<and> map_sum id (\<lambda>w. (fl (Location w), SuccessTransform w))
        (process_warn tree default_args nf_warn) = Inr (''src/main.c'', ''True'')"
  by code_simp

text \<open>
  C5. The code does not do this. The option \<open>root_dir\<close> is never read: the result of a run
  is the same for every value of it, and every search starts in the current directory.
  With \<open>root_dir = /srv/proj\<close>, the file \<open>lib.c\<close>, which a search below that directory
  finds, is reported as missing.
\<close>

theorem root_dir_ignored:
  "process_report fs (a\<lparr>root_dir := r\<rparr>) report = process_report fs a report
   \<and> rglob tree ''/srv/proj'' ''lib.c'' = [''/srv/proj/lib.c'']
   \<and> rglob tree Path ''lib.c'' = []
   \<and> process_warn tree (default_args\<lparr>root_dir := ''/srv/proj''\<rparr>) lib_warn
       = Inr (mark ''False'' ''No Such File'' lib_warn)"
proof -
  have tr: "transform fs (a\<lparr>root_dir := r\<rparr>) w p = transform fs a w p" for w p
    by (simp add: transform_def Let_def split: option.split sum.split)
  have one: "process_warn fs (a\<lparr>root_dir := r\<rparr>) w = process_warn fs a w" for w
    by (simp add: process_warn_def tr Let_def split: sum.split prod.split option.split)
  have "process_report fs (a\<lparr>root_dir := r\<rparr>) report = process_report fs a report"
    by (induction report) (simp_all add: one split: sum.split)
  moreover have "rglob tree ''/srv/proj'' ''lib.c'' = [''/srv/proj/lib.c'']" by code_simp
  moreover have "rglob tree Path ''lib.c'' = []" by code_simp
  moreover have "process_warn tree (default_args\<lparr>root_dir := ''/srv/proj''\<rparr>) lib_warn
       = Inr (mark ''False'' ''No Such File'' lib_warn)" by code_simp
  ultimately show ?thesis by blast
qed

text \<open>
  C4 as stated fails: for the conditional path at line 2 of \<open>util.c\<close> in a warning at line
  10, disambiguation at the line of the branch resolves to \<open>b/util.c\<close>, but the code
  finds no candidate, since neither file has 10 lines.
\<close>

theorem conditional_path_not_at_branch_line:
  "ln (Location (pl_util_warn 10 2)) = 10
   \<and> cl (Location (pl_util_warn 10 2)) = 3
   \<and> ConditionalFreePath (pl_util_warn 10 2) = [branch ''util.c'' 2]
   \<and> bln (BranchLoc (branch ''util.c'' 2)) = 2
   \<and> rglob tree Path ''util.c'' = [''a/util.c'', ''b/util.c'']
   \<and> deal_duplicate tree 2 3 [''a/util.c'', ''b/util.c''] [] = Inr (0, Some ''b/util.c'')
   \<and> process_cond tree (pl_util_warn 10 2) (branch ''util.c'' 2)
       = Inr (mark false NSFIC (pl_util_warn 10 2), branch ''util.c'' 2)"
  by code_simp

text \<open>
  C4 (as amended). When the file name of a conditional path has several matches that can
  all be read, the candidates are tested at the line and the column of the warning's
  primary location (at least 1) and with no function-name hint: the warning is marked
  with the messages of the conditions analysis when no candidate or more than one
  candidate passes, and the excerpt is read from the candidate when exactly one passes.
\<close>

theorem conditional_path_disambiguation:
  assumes "cands = rglob fs Path (bfl (BranchLoc cond))"
    and "1 < length cands"
    and "1 \<le> ln (Location warn)"
    and "\<forall>f \<in> set cands. readlines fs (absolute fs f) = Some (content f)"
    and "kept = filter (\<lambda>f. candidate_accepted (content f)
                               (ln (Location warn)) (cl (Location warn)) []) cands"
  shows "(kept = [] \<longrightarrow> process_cond fs warn cond = Inr (mark false NSFIC warn, cond))
       \<and> (\<forall>p. kept = [p] \<longrightarrow> process_cond fs warn cond = cond_excerpt fs warn cond p)
       \<and> (1 < length kept \<longrightarrow> process_cond fs warn cond = Inr (mark false DFFIC warn, cond))"
proof -
  have dd: "deal_duplicate fs (ln (Location warn)) (cl (Location warn)) cands []
              = Inr (resolution_of kept)"
    using deal_duplicate_char [OF assms(3) assms(4)] assms(5) by simp
  have pc: "process_cond fs warn cond =
      (case resolution_of kept of
         (flag, src_file) \<Rightarrow>
           if flag = 1 then Inr (mark false DFFIC warn, cond)
           else if flag = - 1 then Inr (mark false NSFIC warn, cond)
           else (case src_file of None \<Rightarrow> Inl AttributeError
                 | Some p \<Rightarrow> cond_excerpt fs warn cond p))"
  proof -
    obtain flag src_file where r: "resolution_of kept = (flag, src_file)"
      by (cases "resolution_of kept")
    from dd r assms(1)
    have "deal_duplicate fs (ln (Location warn)) (cl (Location warn))
            (rglob fs Path (bfl (BranchLoc cond))) [] = Inr (flag, src_file)"
      by simp
    moreover from assms(1) assms(2)
    have "length (rglob fs Path (bfl (BranchLoc cond))) \<noteq> 1"
      and "length (rglob fs Path (bfl (BranchLoc cond))) \<noteq> 0"
      by auto
    ultimately show ?thesis by (simp add: process_cond_def Let_def r)
  qed
  show ?thesis
  proof (intro conjI allI impI)
    assume "kept = []"
    then show "process_cond fs warn cond = Inr (mark false NSFIC warn, cond)"
      by (simp add: pc resolution_of_def)
  next
    fix p
    assume "kept = [p]"
    then show "process_cond fs warn cond = cond_excerpt fs warn cond p"
      by (simp add: pc resolution_of_def)
  next
    assume "1 < length kept"
    then obtain x y zs where "kept = x # y # zs"
      by (cases kept; cases "tl kept") auto
    then show "process_cond fs warn cond = Inr (mark false DFFIC warn, cond)"
      by (simp add: pc resolution_of_def)
  qed
qed

theorem conditional_path_disambiguation_witness:
  "[''a/util.c'', ''b/util.c''] = rglob tree Path (bfl (BranchLoc (branch ''util.c'' 1)))
   \<and> ln (Location (pl_util_warn 2 1)) = 2
   \<and> cl (Location (pl_util_warn 2 1)) = 3
   \<and> bln (BranchLoc (branch ''util.c'' 1)) = 1
   \<and> readlines tree (absolute tree ''a/util.c'') = Some util_a
   \<and> readlines tree (absolute tree ''b/util.c'') = Some util_b
   \<and> length util_a = 1 \<and> length util_b = 3
   \<and> process_cond tree (pl_util_warn 2 1) (branch ''util.c'' 1)
        = Inr (pl_util_warn 2 1,
               (branch ''util.c'' 1)\<lparr>CondCodeNear := Some ''void release(char *q) {''\<rparr>)"
proof -
  define content where "content = (\<lambda>f. if f = ''a/util.c'' then util_a else util_b)"
  have cands: "[''a/util.c'', ''b/util.c''] = rglob tree Path (bfl (BranchLoc (branch ''util.c'' 1)))"
    by code_simp
  have many: "1 < length [''a/util.c'', ''b/util.c'']" by simp
  have l: "ln (Location (pl_util_warn 2 1)) = 2" by code_simp
  have c: "cl (Location (pl_util_warn 2 1)) = 3" by code_simp
  have bl: "bln (BranchLoc (branch ''util.c'' 1)) = 1" by code_simp
  have pos: "1 \<le> ln (Location (pl_util_warn 2 1))" by (simp add: l)
  have a: "readlines tree (absolute tree ''a/util.c'') = Some util_a" by code_simp
  have b: "readlines tree (absolute tree ''b/util.c'') = Some util_b" by code_simp
  have la: "length util_a = 1" and lb: "length util_b = 3" by code_simp+
  have rd: "\<forall>f \<in> set [''a/util.c'', ''b/util.c''].
              readlines tree (absolute tree f) = Some (content f)"
    by (simp add: a b content_def)
  have ka: "\<not> candidate_accepted util_a 2 3 []" by code_simp
  have kb: "candidate_accepted util_b 2 3 []" by code_simp
  have kept: "[''b/util.c''] = filter (\<lambda>f. candidate_accepted (content f)
                (ln (Location (pl_util_warn 2 1))) (cl (Location (pl_util_warn 2 1))) [])
           [''a/util.c'', ''b/util.c'']"
    by (simp add: content_def l c ka kb)
  have ex: "cond_excerpt tree (pl_util_warn 2 1) (branch ''util.c'' 1) ''b/util.c''
        = Inr (pl_util_warn 2 1,
               (branch ''util.c'' 1)\<lparr>CondCodeNear := Some ''void release(char *q) {''\<rparr>)"
    by code_simp
  from conditional_path_disambiguation [OF cands many pos rd kept]
  have "process_cond tree (pl_util_warn 2 1) (branch ''util.c'' 1)
          = cond_excerpt tree (pl_util_warn 2 1) (branch ''util.c'' 1) ''b/util.c''"
    by blast
  with ex have "process_cond tree (pl_util_warn 2 1) (branch ''util.c'' 1)
        = Inr (pl_util_warn 2 1,
               (branch ''util.c'' 1)\<lparr>CondCodeNear := Some ''void release(char *q) {''\<rparr>)"
    by simp
  with cands l c bl a b la lb show ?thesis by blast
qed

end
